theory Spec2Isabelle
  imports Main "HOL-Library.AList"
begin

section \<open>Characters and strings\<close>

text \<open>
  A Python \<open>str\<close> is a sequence of code points. It is modelled by \<^typ>\<open>string\<close>, and a
  \<^typ>\<open>char\<close> stands for the code point with the same number, so the model covers the
  code points U+0000 to U+00FF (Basic Latin and Latin-1 Supplement). The three tables
  below are Python's \<open>str.isspace\<close>, \<open>str.isalnum\<close> and \<open>str.lower\<close> on that range,
  which \<open>str.lower\<close> does not leave.
\<close>

definition code :: "char \<Rightarrow> nat" where
  "code c = of_char c"

definition isspace :: "char \<Rightarrow> bool" where
  "isspace c = (let n = code c in
     (9 \<le> n \<and> n \<le> 13) \<or> (28 \<le> n \<and> n \<le> 32) \<or> n = 133 \<or> n = 160)"

definition isalnum :: "char \<Rightarrow> bool" where
  "isalnum c = (let n = code c in
     (48 \<le> n \<and> n \<le> 57) \<or> (65 \<le> n \<and> n \<le> 90) \<or> (97 \<le> n \<and> n \<le> 122) \<or>
     n = 170 \<or> n = 178 \<or> n = 179 \<or> n = 181 \<or> n = 185 \<or> n = 186 \<or>
     (188 \<le> n \<and> n \<le> 190) \<or> (192 \<le> n \<and> n \<le> 214) \<or>
     (216 \<le> n \<and> n \<le> 246) \<or> (248 \<le> n \<and> n \<le> 255))"

definition has_lower :: "char \<Rightarrow> bool" where
  "has_lower c = (let n = code c in
     (65 \<le> n \<and> n \<le> 90) \<or> (192 \<le> n \<and> n \<le> 214) \<or> (216 \<le> n \<and> n \<le> 222))"

definition lower_char :: "char \<Rightarrow> char" where
  "lower_char c = (if has_lower c then char_of (code c + 32) else c)"

definition lower :: "string \<Rightarrow> string" where
  "lower s = map lower_char s"

definition lstrip :: "string \<Rightarrow> string" where
  "lstrip s = dropWhile isspace s"

definition rstrip :: "string \<Rightarrow> string" where
  "rstrip s = rev (dropWhile isspace (rev s))"

definition strip :: "string \<Rightarrow> string" where
  "strip s = rstrip (lstrip s)"

text \<open>\<open>s.replace(old, new)\<close> for one-character \<open>old\<close> and \<open>new\<close>.\<close>

definition replace :: "char \<Rightarrow> char \<Rightarrow> string \<Rightarrow> string" where
  "replace old new s = map (\<lambda>c. if c = old then new else c) s"

section \<open>Identifier normalizer\<close>

definition slug_char :: "char \<Rightarrow> bool" where
  "slug_char ch = (isalnum ch \<or> ch = CHR ''_'')"

definition slugify :: "string \<Rightarrow> string" where
  "slugify name =
     (let s = replace (CHR '' '') (CHR ''_'') (lower (strip name));
          s = filter slug_char s
      in take 40 s)"


section \<open>Numbers as text\<close>

text \<open>Python's \<open>str(i)\<close> and \<open>f"{i}"\<close> for an integer: decimal digits, a minus sign first.\<close>

definition digit_char :: "nat \<Rightarrow> char" where
  "digit_char d = char_of (48 + d)"

fun str_nat :: "nat \<Rightarrow> string" where
  "str_nat n = (if n < 10 then [digit_char n] else str_nat (n div 10) @ [digit_char (n mod 10)])"

declare str_nat.simps [simp del]

definition str_int :: "int \<Rightarrow> string" where
  "str_int i = (if i < 0 then CHR ''-'' # str_nat (nat (- i)) else str_nat (nat i))"

text \<open>The inverse reading of a decimal numeral, used to show that \<open>str_nat\<close> is injective.\<close>

definition digit_val :: "char \<Rightarrow> nat" where
  "digit_val c = code c - 48"

definition nat_of_str :: "string \<Rightarrow> nat" where
  "nat_of_str s = foldl (\<lambda>a c. 10 * a + digit_val c) 0 s"

section \<open>Data model\<close>

datatype error = ValueError | FileNotFoundError | IndexError

text \<open>
  \<open>ValueError\<close> is what \<open>append_movement\<close> raises on a duplicate id (the specification's
  DuplicateIdentifier), \<open>FileNotFoundError\<close> what \<open>import_movements_file\<close> raises for a
  missing path (SourceNotFound), \<open>IndexError\<close> what \<open>text.splitlines()[0]\<close> raises on a
  text without lines.
\<close>

text \<open>The dataclass \<open>Movement\<close>; field \<open>f\<close> is the selector \<open>m_f\<close>.\<close>

record Movement =
  m_id :: string
  m_name :: string
  m_category :: string
  m_default_unit :: string
  m_primary_muscle :: string
  m_secondary_muscles :: string
  m_notes :: string

text \<open>
  The dataclass \<open>SetRecord\<close>. \<open>'f\<close> is Python's \<open>float\<close>, of which the code only
  needs the text that \<open>csv.writer\<close> writes for it (a parameter of \<open>append_set_record\<close>).
  Field \<open>notes\<close> is the selector \<open>notes'\<close>.
\<close>

record 'f SetRecord =
  workout_id :: string
  date :: string
  start_time :: string
  movement_id :: string
  movement_name :: string
  set_number :: int
  set_type :: string
  cluster_id :: string
  reps :: "string option"
  load :: "'f option"
  unit :: string
  rest_seconds :: "int option"
  rpe :: "'f option"
  tags :: string
  notes' :: string
  created_at :: string

text \<open>
  A data row of \<open>workouts.csv\<close> as \<open>csv.DictReader\<close> hands it over: the sixteen cells
  under the columns of the header that \<open>ensure_files_exist\<close> writes; column \<open>c\<close> is
  the selector \<open>row_c\<close>.
\<close>

record LogRow =
  row_workout_id :: string
  row_date :: string
  row_start_time :: string
  row_movement_id :: string
  row_movement_name :: string
  row_set_number :: string
  row_set_type :: string
  row_cluster_id :: string
  row_reps :: string
  row_load :: string
  row_unit :: string
  row_rest_seconds :: string
  row_rpe :: string
  row_tags :: string
  row_notes :: string
  row_created_at :: string

text \<open>
  The two backing files. \<open>None\<close> is a file that does not exist; \<open>Some rows\<close> is the
  header line followed by the data rows \<open>rows\<close>, oldest first. A data row of
  \<open>movements.csv\<close> has the seven columns of a \<open>Movement\<close>. The \<open>csv\<close> module's
  quoting is not modelled: a row read back holds the cells that were written.
  Output of \<open>print\<close> is not modelled.
\<close>

record files =
  MOVEMENTS_CSV :: "Movement list option"
  WORKOUTS_CSV :: "LogRow list option"

text \<open>A Python \<open>dict\<close> with its insertion order: an association list with distinct keys.\<close>

type_synonym ('k, 'v) dict = "('k \<times> 'v) list"

definition keys :: "('k, 'v) dict \<Rightarrow> 'k set" where
  "keys d = fst ` set d"

text \<open>\<open>d[k] = v\<close>: a known key keeps its place, a new one goes last.\<close>

definition setitem :: "'k \<Rightarrow> 'v \<Rightarrow> ('k, 'v) dict \<Rightarrow> ('k, 'v) dict" where
  "setitem k v d = AList.update k v d"

definition setdefault :: "'k \<Rightarrow> 'v \<Rightarrow> ('k, 'v) dict \<Rightarrow> ('k, 'v) dict" where
  "setdefault k v d = (if k \<in> keys d then d else d @ [(k, v)])"

text \<open>\<open>dict(pairs)\<close>.\<close>

definition py_dict :: "('k \<times> 'v) list \<Rightarrow> ('k, 'v) dict" where
  "py_dict kvs = foldl (\<lambda>d (k, v). setitem k v d) [] kvs"

definition get :: "('k, 'v) dict \<Rightarrow> 'k \<Rightarrow> 'v option" where
  "get d k = map_of d k"


definition values_of :: "('k, 'v) dict \<Rightarrow> 'v list" where
  "values_of d = map snd d"

section \<open>Movement catalog store\<close>

definition ensure_files_exist :: "files \<Rightarrow> files" where
  "ensure_files_exist fs =
     (let fs = (if MOVEMENTS_CSV fs = None then fs\<lparr>MOVEMENTS_CSV := Some []\<rparr> else fs);
          fs = (if WORKOUTS_CSV fs = None then fs\<lparr>WORKOUTS_CSV := Some []\<rparr> else fs)
      in fs)"

text \<open>
  Opening a file in mode \<open>"a"\<close> and writing one row. Both callers have run
  \<open>ensure_files_exist\<close> before, so the file is there.
\<close>

definition append_row :: "'a list option \<Rightarrow> 'a \<Rightarrow> 'a list option" where
  "append_row file row = (case file of None \<Rightarrow> Some [row] | Some rows \<Rightarrow> Some (rows @ [row]))"

text \<open>The key of a row in \<open>load_movements\<close>: \<open>row.get("id") or slugify(row.get("name", ""))\<close>.\<close>

definition row_mid :: "Movement \<Rightarrow> string" where
  "row_mid row = (if m_id row \<noteq> [] then m_id row else slugify (m_name row))"

definition load_row :: "(string, Movement) dict \<Rightarrow> Movement \<Rightarrow> (string, Movement) dict" where
  "load_row movements row = (let mid = row_mid row in setitem mid (row\<lparr>m_id := mid\<rparr>) movements)"

definition load_movements :: "files \<Rightarrow> (string, Movement) dict" where
  "load_movements fs =
     (case MOVEMENTS_CSV fs of
        None \<Rightarrow> []
      | Some reader \<Rightarrow> foldl load_row [] reader)"

definition append_movement :: "files \<Rightarrow> Movement \<Rightarrow> error + files" where
  "append_movement fs m =
     (let fs = ensure_files_exist fs;
          movements = load_movements fs
      in if m_id m \<in> keys movements then Inl ValueError
         else Inr (fs\<lparr>MOVEMENTS_CSV := append_row (MOVEMENTS_CSV fs) m\<rparr>))"

section \<open>Set log store\<close>

text \<open>What \<open>csv.writer\<close> writes for an optional cell: nothing for \<open>None\<close>.\<close>

definition cell :: "('a \<Rightarrow> string) \<Rightarrow> 'a option \<Rightarrow> string" where
  "cell str x = (case x of None \<Rightarrow> [] | Some v \<Rightarrow> str v)"

definition log_row :: "('f \<Rightarrow> string) \<Rightarrow> 'f SetRecord \<Rightarrow> LogRow" where
  "log_row str_float record =
     \<lparr>row_workout_id = workout_id record,
      row_date = date record,
      row_start_time = start_time record,
      row_movement_id = movement_id record,
      row_movement_name = movement_name record,
      row_set_number = str_int (set_number record),
      row_set_type = set_type record,
      row_cluster_id = cluster_id record,
      row_reps = cell (\<lambda>s. s) (reps record),
      row_load = cell str_float (load record),
      row_unit = unit record,
      row_rest_seconds = cell str_int (rest_seconds record),
      row_rpe = cell str_float (rpe record),
      row_tags = tags record,
      row_notes = notes' record,
      row_created_at = created_at record\<rparr>"

text \<open>
  \<open>append_set_record\<close> assigns to a field of its argument; the model returns the
  argument as the call leaves it, next to the files. \<open>now\<close> is
  \<open>datetime.datetime.now().isoformat()\<close> at the call.
\<close>

definition append_set_record ::
  "('f \<Rightarrow> string) \<Rightarrow> string \<Rightarrow> files \<Rightarrow> 'f SetRecord \<Rightarrow> files \<times> 'f SetRecord" where
  "append_set_record str_float now fs record =
     (let fs = ensure_files_exist fs;
          record = (if created_at record = [] then record\<lparr>created_at := now\<rparr> else record)
      in (fs\<lparr>WORKOUTS_CSV := append_row (WORKOUTS_CSV fs) (log_row str_float record)\<rparr>, record))"

section \<open>Summary aggregator\<close>

text \<open>The dict that \<open>export_summary\<close> keeps per workout; key \<open>k\<close> is the selector \<open>sum_k\<close>.\<close>

record Summary =
  sum_workout_id :: string
  sum_date :: string
  sum_movements :: "string list"

definition descriptor :: "LogRow \<Rightarrow> string" where
  "descriptor r =
     row_movement_name r @ '':'' @ row_set_number r @ ''x'' @ row_reps r @ ''@'' @ row_load r"

text \<open>One turn of the loop over the rows of the log.\<close>

definition summary_step :: "(string, Summary) dict \<Rightarrow> LogRow \<Rightarrow> (string, Summary) dict" where
  "summary_step tmp r =
     (let wid = row_workout_id r;
          tmp = setdefault wid
                  \<lparr>sum_workout_id = wid, sum_date = row_date r, sum_movements = []\<rparr> tmp
      in AList.map_entry wid (\<lambda>s. s\<lparr>sum_movements := sum_movements s @ [descriptor r]\<rparr>) tmp)"

text \<open>\<open>rows\<close> of \<open>export_summary\<close>: \<open>list(tmp.values())\<close> after the loop.\<close>

definition summary_rows :: "LogRow list \<Rightarrow> Summary list" where
  "summary_rows reader = values_of (foldl summary_step [] reader)"

fun join :: "string \<Rightarrow> string list \<Rightarrow> string" where
  "join sep [] = []"
| "join sep [x] = x"
| "join sep (x # y # ys) = x @ sep @ join sep (y # ys)"

text \<open>
  \<open>export_summary\<close> returns the table written to \<open>out\<close> (\<open>None\<close> when it writes
  nothing) and the count.
\<close>

definition export_summary :: "files \<Rightarrow> string list list option \<times> nat" where
  "export_summary fs =
     (case WORKOUTS_CSV fs of
        None \<Rightarrow> (None, 0)
      | Some reader \<Rightarrow>
          (let rows = summary_rows reader
           in (Some ([''workout_id'', ''date'', ''movements_summary''] #
                     map (\<lambda>r. [sum_workout_id r, sum_date r, join '';'' (sum_movements r)]) rows),
               length rows)))"

section \<open>Importer\<close>

subsection \<open>Unique identifiers\<close>

text \<open>
  The \<open>while\<close> loop of \<open>import_movements_file\<close> tries \<open>slugify(name)\<close>, then
  \<open>f"{slugify(name)}_{i}"\<close> for \<open>i = 2, 3, ...\<close> until the id is not a key of
  \<open>existing\<close>. It ends because the decimal numerals of different numbers differ and
  \<open>existing\<close> has finitely many keys.
\<close>

lemma code_lt_256: "code c < 256"
  by (simp add: code_def)

lemma code_char_of: "n < 256 \<Longrightarrow> code (char_of n) = n"
  by (simp add: code_def)

lemma digit_val_digit_char: "d < 10 \<Longrightarrow> digit_val (digit_char d) = d"
  by (simp add: digit_val_def digit_char_def code_char_of)

lemma nat_of_str_snoc: "nat_of_str (s @ [c]) = 10 * nat_of_str s + digit_val c"
  by (simp add: nat_of_str_def)

lemma nat_of_str_str_nat: "nat_of_str (str_nat n) = n"
proof (induction n rule: str_nat.induct)
  case (1 n)
  show ?case
  proof (cases "n < 10")
    case True
    then show ?thesis
      by (simp add: str_nat.simps [of n] nat_of_str_def digit_val_digit_char)
  next
    case False
    then have "nat_of_str (str_nat (n div 10)) = n div 10"
      using "1.IH" by simp
    with False show ?thesis
      by (simp add: str_nat.simps [of n] nat_of_str_snoc digit_val_digit_char)
  qed
qed

lemma inj_str_nat: "inj str_nat"
  by (rule inj_on_inverseI [where g = nat_of_str]) (rule nat_of_str_str_nat)

lemma str_nat_not_Nil: "str_nat n \<noteq> []"
  by (subst str_nat.simps) simp

definition suffixed :: "string \<Rightarrow> nat \<Rightarrow> string" where
  "suffixed base i = base @ ''_'' @ str_nat i"

lemma inj_suffixed: "inj (suffixed base)"
  by (rule injI) (simp add: suffixed_def inj_str_nat [THEN injD])

lemma finite_suffixed_in: "finite {j. P j \<and> suffixed base j \<in> keys (d :: (string, 'v) dict)}"
proof -
  have "finite (suffixed base -` keys d)"
    by (rule finite_vimageI) (simp_all add: keys_def inj_suffixed)
  then show ?thesis
    by (rule rev_finite_subset) auto
qed



lemma split_above:
  "{j::nat. i < j \<and> P j} =
     (if P (Suc i) then insert (Suc i) {j. Suc i < j \<and> P j} else {j. Suc i < j \<and> P j})"
proof -
  have "i < j \<longleftrightarrow> j = Suc i \<or> Suc i < j" for j
    by arith
  then have "{j. i < j \<and> P j} = {j. j = Suc i \<and> P j} \<union> {j. Suc i < j \<and> P j}"
    by blast
  moreover have "{j. j = Suc i \<and> P j} = (if P (Suc i) then {Suc i} else {})"
    by auto
  ultimately show ?thesis by simp
qed

definition taken_above :: "string \<Rightarrow> (string, 'v) dict \<Rightarrow> nat \<Rightarrow> nat set" where
  "taken_above base d i = {j. i < j \<and> suffixed base j \<in> keys d}"

lemma card_taken_above:
  "card (taken_above base d i) =
     (if suffixed base (Suc i) \<in> keys d then Suc (card (taken_above base d (Suc i)))
      else card (taken_above base d (Suc i)))"
proof -
  have fin: "finite (taken_above base d (Suc i))"
    unfolding taken_above_def by (rule finite_suffixed_in)
  have notin: "Suc i \<notin> taken_above base d (Suc i)"
    by (simp add: taken_above_def)
  have "taken_above base d i =
      (if suffixed base (Suc i) \<in> keys d then insert (Suc i) (taken_above base d (Suc i))
       else taken_above base d (Suc i))"
    unfolding taken_above_def by (rule split_above)
  then show ?thesis
    using fin notin by (cases "suffixed base (Suc i) \<in> keys d") simp_all
qed

function resolve :: "string \<Rightarrow> (string, 'v) dict \<Rightarrow> nat \<Rightarrow> string \<Rightarrow> string" where
  "resolve name existing i mid =
     (if mid \<in> keys existing
      then resolve name existing (i + 1) (suffixed (slugify name) (i + 1))
      else mid)"
  by pat_completeness auto
termination
proof (relation "measure (\<lambda>(name, existing, i, mid).
    2 * card (taken_above (slugify name) existing i) + (if mid \<in> keys existing then 1 else 0))",
    goal_cases)
  case 1
  show ?case by simp
next
  case (2 name existing i mid)
  have "card (taken_above (slugify name) existing i) =
     (if suffixed (slugify name) (Suc i) \<in> keys existing
      then Suc (card (taken_above (slugify name) existing (Suc i)))
      else card (taken_above (slugify name) existing (Suc i)))"
    by (rule card_taken_above)
  with 2 show ?case by simp
qed

declare resolve.simps [simp del]

subsection \<open>Reading the source\<close>

text \<open>
  \<open>str.splitlines\<close>: a line ends at \<open>\n\<close>, \<open>\r\<close>, \<open>\r\n\<close>, \<open>\v\<close>, \<open>\f\<close>,
  \<open>\x1c\<close>, \<open>\x1d\<close>, \<open>\x1e\<close> or \<open>\x85\<close>; the line ends are not kept, and a text
  that ends with one has no empty last line.
\<close>

definition is_linebreak :: "char \<Rightarrow> bool" where
  "is_linebreak c = (let n = code c in (10 \<le> n \<and> n \<le> 13) \<or> (28 \<le> n \<and> n \<le> 30) \<or> n = 133)"

fun splitlines_from :: "string \<Rightarrow> string \<Rightarrow> string list" where
  "splitlines_from line [] = (if line = [] then [] else [line])"
| "splitlines_from line [c] = (if is_linebreak c then [line] else [line @ [c]])"
| "splitlines_from line (c # d # cs) =
     (if code c = 13 \<and> code d = 10 then line # splitlines_from [] cs
      else if is_linebreak c then line # splitlines_from [] (d # cs)
      else splitlines_from (line @ [c]) (d # cs))"

definition splitlines :: "string \<Rightarrow> string list" where
  "splitlines text = splitlines_from [] text"

text \<open>
  \<open>csv.DictReader\<close> over the rows that \<open>csv.reader\<close> yields: the first row holds
  the field names, empty rows are skipped, and a row becomes the dict of its cells under
  the field names. A cell missing in a short row is \<open>None\<close> in Python; \<open>get\<close> answers
  \<open>None\<close> for it here too.
\<close>

definition DictReader :: "string list list \<Rightarrow> (string, string) dict list" where
  "DictReader table =
     (case table of
        [] \<Rightarrow> []
      | fieldnames # rows \<Rightarrow>
          map (\<lambda>row. py_dict (zip fieldnames row)) (filter (\<lambda>row. row \<noteq> []) rows))"

text \<open>Python's \<open>x or y\<close> on optional strings: \<open>None\<close> and the empty string are false.\<close>

definition py_or :: "string option \<Rightarrow> string option \<Rightarrow> string option" where
  "py_or x y = (case x of None \<Rightarrow> y | Some s \<Rightarrow> if s = [] then y else x)"

definition or_str :: "string option \<Rightarrow> string \<Rightarrow> string" where
  "or_str x y = (case x of None \<Rightarrow> y | Some s \<Rightarrow> if s = [] then y else s)"

definition row_name :: "(string, string) dict \<Rightarrow> string" where
  "row_name row =
     strip (or_str (py_or (py_or (get row ''Exercise_Name'') (get row ''Exercise Name''))
                          (get row ''Exercise'')) [])"

definition name_known :: "(string, Movement) dict \<Rightarrow> string \<Rightarrow> bool" where
  "name_known existing name = list_ex (\<lambda>m. lower (m_name m) = lower name) (values_of existing)"

definition new_movement :: "string \<Rightarrow> string \<Rightarrow> (string, string) dict \<Rightarrow> Movement" where
  "new_movement mid name row =
     \<lparr>m_id = mid, m_name = name, m_category = strip (or_str (get row ''Movement_Group'') []),
      m_default_unit = [], m_primary_muscle = [], m_secondary_muscles = [], m_notes = []\<rparr>"

text \<open>
  The loop over the rows of the source; it returns \<open>count\<close>, and with it the snapshot
  \<open>existing\<close> and the files as the loop leaves them.
\<close>

fun import_rows ::
  "(string, string) dict list \<Rightarrow> nat \<Rightarrow> (string, Movement) dict \<Rightarrow> files \<Rightarrow>
     error + (nat \<times> (string, Movement) dict \<times> files)" where
  "import_rows [] count existing fs = Inr (count, existing, fs)"
| "import_rows (row # reader) count existing fs =
     (let name = row_name row
      in if name = [] then import_rows reader count existing fs
         else if name_known existing name then import_rows reader count existing fs
         else (let mid = resolve name existing 1 (slugify name);
                   m = new_movement mid name row
               in case append_movement fs m of
                    Inl e \<Rightarrow> Inl e
                  | Inr fs \<Rightarrow> import_rows reader (count + 1) (setitem mid m existing) fs))"

text \<open>
  \<open>path\<close> is the text at the path, \<open>None\<close> when nothing exists there.
  \<open>csv_reader delimiter lines\<close> is the standard library's \<open>csv.reader\<close>: the rows of
  cells it yields for the lines.
\<close>

definition import_movements_file ::
  "(char \<Rightarrow> string list \<Rightarrow> string list list) \<Rightarrow> files \<Rightarrow> string option \<Rightarrow>
     error + (nat \<times> files)" where
  "import_movements_file csv_reader fs path =
     (case path of
        None \<Rightarrow> Inl FileNotFoundError
      | Some text \<Rightarrow>
          (case splitlines text of
             [] \<Rightarrow> Inl IndexError
           | first_line # _ \<Rightarrow>
               (let delimiter = (if CHR 0x09 \<in> set first_line then CHR 0x09 else CHR '','');
                    reader = DictReader (csv_reader delimiter (splitlines text));
                    existing = load_movements fs
                in case import_rows reader 0 existing fs of
                     Inl e \<Rightarrow> Inl e
                   | Inr (count, existing, fs) \<Rightarrow> Inr (count, fs))))"

section \<open>The specification's notions\<close>

subsection \<open>Normalizer\<close>

text \<open>
  The specification's \<open>normalize\<close>: lower-case, trim, replace each run of interior
  whitespace by one joining character, strip what is neither alphanumeric nor the joining
  character, truncate to 40.
\<close>

function join_whitespace :: "string \<Rightarrow> string" where
  "join_whitespace [] = []"
| "join_whitespace (c # cs) =
     (if isspace c then CHR ''_'' # join_whitespace (dropWhile isspace cs)
      else c # join_whitespace cs)"
  by pat_completeness auto

termination
  by (relation "measure length") (auto simp: length_dropWhile_le le_imp_less_Suc)

definition normalize_spec :: "string \<Rightarrow> string" where
  "normalize_spec name = take 40 (filter slug_char (join_whitespace (strip (lower name))))"

text \<open>
  Names whose whitespace is single space characters only: no other whitespace character,
  no two adjacent.
\<close>

fun single_spaced :: "string \<Rightarrow> bool" where
  "single_spaced [] = True"
| "single_spaced [c] = (isspace c \<longrightarrow> c = CHR '' '')"
| "single_spaced (c # d # cs) =
     ((isspace c \<longrightarrow> c = CHR '' '' \<and> \<not> isspace d) \<and> single_spaced (d # cs))"

subsection \<open>Catalog and log\<close>

text \<open>\<open>catalog_rows\<close> is the data rows of the catalog file, none when the file is missing.\<close>

definition catalog_rows :: "files \<Rightarrow> Movement list" where
  "catalog_rows fs = (case MOVEMENTS_CSV fs of None \<Rightarrow> [] | Some rows \<Rightarrow> rows)"

text \<open>\<open>log_of\<close> is the data rows of the log, none when the file is missing.\<close>

definition log_of :: "files \<Rightarrow> LogRow list" where
  "log_of fs = (case WORKOUTS_CSV fs of None \<Rightarrow> [] | Some log \<Rightarrow> log)"


subsection \<open>Summaries\<close>

text \<open>
  The grouping as the specification words it: the workout ids in the order in which they
  are first seen, and for a workout id the rows of the log that carry it, the date of the
  first of them and their descriptors in log order.
\<close>

fun first_seen :: "'a list \<Rightarrow> 'a list" where
  "first_seen [] = []"
| "first_seen (x # xs) = x # filter (\<lambda>y. y \<noteq> x) (first_seen xs)"

definition sets_of :: "string \<Rightarrow> LogRow list \<Rightarrow> LogRow list" where
  "sets_of wid log = filter (\<lambda>r. row_workout_id r = wid) log"

definition summary_of :: "LogRow list \<Rightarrow> string \<Rightarrow> Summary" where
  "summary_of log wid =
     \<lparr>sum_workout_id = wid,
      sum_date = (case sets_of wid log of [] \<Rightarrow> [] | r # _ \<Rightarrow> row_date r),
      sum_movements = map descriptor (sets_of wid log)\<rparr>"

text \<open>The dict of the loop of \<open>export_summary\<close> after the rows \<open>log\<close>, for the ids \<open>ws\<close>.\<close>

definition tabulate :: "LogRow list \<Rightarrow> string list \<Rightarrow> (string, Summary) dict" where
  "tabulate log ws = map (\<lambda>w. (w, summary_of log w)) ws"



subsection \<open>Import\<close>

text \<open>
  The identifiers in the order in which the loop tries them: the slug, then the slug
  with the suffixes \<open>_2\<close>, \<open>_3\<close>, ...
\<close>

definition candidate :: "string \<Rightarrow> nat \<Rightarrow> string" where
  "candidate base k = (if k \<le> 1 then base else suffixed base k)"

text \<open>\<open>mid\<close> is the first candidate that is not among the known ids \<open>K\<close>.\<close>

definition first_free :: "string \<Rightarrow> string set \<Rightarrow> string \<Rightarrow> bool" where
  "first_free base K mid \<longleftrightarrow>
     (\<exists>k\<ge>1. mid = candidate base k \<and> mid \<notin> K \<and> (\<forall>j. 1 \<le> j \<and> j < k \<longrightarrow> candidate base j \<in> K))"

text \<open>
  Every movement of the list got the first candidate of its name that was free when it
  was created: free among \<open>K\<close> and the ids of the movements before it.
\<close>

fun ids_first_free :: "string set \<Rightarrow> Movement list \<Rightarrow> bool" where
  "ids_first_free K [] = True"
| "ids_first_free K (m # ms) =
     (first_free (slugify (m_name m)) K (m_id m) \<and> ids_first_free (insert (m_id m) K) ms)"

text \<open>
  The rows that create a movement, as the specification words it: a row creates when it
  yields a name and no movement of that name, compared in lower case, is in the snapshot,
  which then takes the new name. \<open>known\<close> is the names of the snapshot.
\<close>

fun created_names :: "string list \<Rightarrow> (string, string) dict list \<Rightarrow> string list" where
  "created_names known [] = []"
| "created_names known (row # rows) =
     (if row_name row \<noteq> [] \<and> lower (row_name row) \<notin> set (map lower known)
      then row_name row # created_names (known @ [row_name row]) rows
      else created_names known rows)"

text \<open>The rows of the source table, as \<open>import_movements_file\<close> reads them from the text.\<close>

definition source_rows ::
  "(char \<Rightarrow> string list \<Rightarrow> string list list) \<Rightarrow> string \<Rightarrow> (string, string) dict list" where
  "source_rows csv_reader text =
     (case splitlines text of
        [] \<Rightarrow> []
      | first_line # _ \<Rightarrow>
          DictReader (csv_reader (if CHR 0x09 \<in> set first_line then CHR 0x09 else CHR '','')
                                 (splitlines text)))"

section \<open>Example data\<close>

text \<open>\<open>csv.reader\<close> on lines without quote characters: the cells between the delimiters.\<close>

fun split_cells :: "char \<Rightarrow> string \<Rightarrow> string \<Rightarrow> string list" where
  "split_cells delimiter field [] = [field]"
| "split_cells delimiter field (c # cs) =
     (if c = delimiter then field # split_cells delimiter [] cs
      else split_cells delimiter (field @ [c]) cs)"

definition plain_reader :: "char \<Rightarrow> string list \<Rightarrow> string list list" where
  "plain_reader delimiter lines =
     map (\<lambda>line. if line = [] then [] else split_cells delimiter [] line) lines"

definition no_files :: files where
  "no_files = \<lparr>MOVEMENTS_CSV = None, WORKOUTS_CSV = None\<rparr>"

definition bench_set :: "string SetRecord" where
  "bench_set =
     \<lparr>workout_id = ''w1'', date = ''2025-01-01'', start_time = ''12:00:00'',
      movement_id = ''bar'', movement_name = ''Barbell Press'', set_number = 1,
      set_type = ''work'', cluster_id = [], reps = Some ''5'', load = Some ''100.0'',
      unit = ''kg'', rest_seconds = None, rpe = None, tags = [], notes' = [],
      created_at = []\<rparr>"






definition two_presses :: string where
  "two_presses = ''Exercise_Name\<newline>Overhead Press\<newline>Overhead Press!\<newline>''"

definition press :: Movement where
  "press = \<lparr>m_id = ''overhead_press'', m_name = ''Overhead Press'', m_category = [],
     m_default_unit = [], m_primary_muscle = [], m_secondary_muscles = [], m_notes = []\<rparr>"

definition press_2 :: Movement where
  "press_2 = \<lparr>m_id = ''overhead_press_2'', m_name = ''Overhead Press!'', m_category = [],
     m_default_unit = [], m_primary_muscle = [], m_secondary_muscles = [], m_notes = []\<rparr>"

section \<open>Properties of the identifier normalizer\<close>

lemma lower_char_idem: "lower_char (lower_char c) = lower_char c"
  by (auto simp add: lower_char_def has_lower_def code_char_of Let_def)

lemma lower_char_underscore: "lower_char (CHR ''_'') = CHR ''_''"
  by (simp add: lower_char_def has_lower_def code_def)

lemma isspace_space: "isspace (CHR '' '')"
  by (simp add: isspace_def code_def)

lemma slug_char_not_space: "slug_char c \<Longrightarrow> \<not> isspace c"
  by (auto simp add: slug_char_def isalnum_def isspace_def Let_def code_def)

lemma strip_no_space:
  assumes "\<forall>c\<in>set s. \<not> isspace c"
  shows "strip s = s"
proof -
  from assms have "dropWhile isspace s = s"
    by (cases s) auto
  moreover from assms have "dropWhile isspace (rev s) = rev s"
    by (cases "rev s") (auto simp: in_set_conv_decomp)
  ultimately show ?thesis
    by (simp add: strip_def lstrip_def rstrip_def)
qed

lemma slugify_fixed:
  assumes "\<forall>c\<in>set s. slug_char c \<and> lower_char c = c" and "length s \<le> 40"
  shows "slugify s = s"
proof -
  from assms(1) have ns: "\<forall>c\<in>set s. \<not> isspace c"
    by (auto dest: slug_char_not_space)
  have 1: "strip s = s"
    using ns by (rule strip_no_space)
  have 2: "lower s = s"
    using assms(1) by (simp add: lower_def map_idI)
  have 3: "replace (CHR '' '') (CHR ''_'') s = s"
    unfolding replace_def using ns isspace_space by (intro map_idI) auto
  have 4: "filter slug_char s = s"
    using assms(1) by simp
  show ?thesis
    using assms(2) by (simp add: slugify_def 1 2 3 4)
qed

lemma slugify_chars:
  assumes "c \<in> set (slugify s)"
  shows "slug_char c \<and> lower_char c = c"
proof -
  from assms have "c \<in> set (filter slug_char (replace (CHR '' '') (CHR ''_'') (lower (strip s))))"
    by (auto simp: slugify_def dest: in_set_takeD)
  then have sc: "slug_char c"
    and "c \<in> set (replace (CHR '' '') (CHR ''_'') (lower (strip s)))"
    by auto
  then have "\<exists>d. c = (if lower_char d = CHR '' '' then CHR ''_'' else lower_char d)"
    unfolding replace_def lower_def by (simp add: image_iff) blast
  then obtain d where c: "c = (if lower_char d = CHR '' '' then CHR ''_'' else lower_char d)"
    by blast
  then have "lower_char c = c"
    by (auto simp: lower_char_idem lower_char_underscore)
  with sc show ?thesis by simp
qed

lemma length_slugify: "length (slugify s) \<le> 40"
  by (simp add: slugify_def)

text \<open>
  Claim C8. \<open>slugify\<close> is idempotent: normalizing a name that is already the result of
  normalizing gives the same identifier. It holds for every string, so for every
  valid name.
\<close>

theorem slugify_idempotent: "slugify (slugify x) = slugify x"
  by (rule slugify_fixed) (auto dest: slugify_chars simp: length_slugify)

lemma isspace_lower_char: "isspace (lower_char c) = isspace c"
  by (auto simp add: lower_char_def has_lower_def isspace_def code_char_of Let_def)

lemma isspace_o_lower_char: "isspace \<circ> lower_char = isspace"
  by (rule ext) (simp add: isspace_lower_char)

lemma lstrip_lower: "lstrip (lower s) = lower (lstrip s)"
  by (simp add: lstrip_def lower_def dropWhile_map isspace_o_lower_char)

lemma rstrip_lower: "rstrip (lower s) = lower (rstrip s)"
  by (simp add: rstrip_def lower_def dropWhile_map isspace_o_lower_char rev_map)

lemma strip_lower: "strip (lower s) = lower (strip s)"
  by (simp add: strip_def lstrip_lower rstrip_lower)

subsection \<open>Against the specification's normalizer\<close>

text \<open>
  Claim C3, as stated, fails: on a name with two adjacent spaces \<open>slugify\<close> gives two
  joining characters where the specification's normalizer gives one.
\<close>

theorem slugify_counterexample:
  "slugify ''a  b'' = ''a__b'' \<and> normalize_spec ''a  b'' = ''a_b'' \<and>
   slugify ''a  b'' \<noteq> normalize_spec ''a  b''"
  by code_simp

lemma not_isspace_not_space: "\<not> isspace c \<Longrightarrow> c \<noteq> CHR '' ''"
  using isspace_space by blast

lemma join_whitespace_single_spaced:
  "single_spaced s \<Longrightarrow> join_whitespace s = replace (CHR '' '') (CHR ''_'') s"
proof (induction s rule: single_spaced.induct)
  case 1
  show ?case by (simp add: replace_def)
next
  case (2 c)
  show ?case
  proof (cases "isspace c")
    case True
    with 2 have "c = CHR '' ''" by simp
    with True show ?thesis by (simp add: replace_def)
  next
    case False
    then show ?thesis by (simp add: replace_def not_isspace_not_space)
  qed
next
  case (3 c d cs)
  then have ih: "join_whitespace (d # cs) = replace (CHR '' '') (CHR ''_'') (d # cs)"
    by simp
  show ?case
  proof (cases "isspace c")
    case True
    with 3(2) have c: "c = CHR '' ''" and d: "\<not> isspace d" by simp_all
    from d have "dropWhile isspace (d # cs) = d # cs" by simp
    with True c ih show ?thesis by (simp add: replace_def)
  next
    case False
    with ih show ?thesis by (simp add: replace_def not_isspace_not_space)
  qed
qed

lemma lower_char_eq_space: "lower_char c = CHR '' '' \<longleftrightarrow> c = CHR '' ''"
proof
  assume h: "lower_char c = CHR '' ''"
  then have "isspace (lower_char c)" by (simp add: isspace_space)
  then have "isspace c" by (simp add: isspace_lower_char)
  then have "\<not> has_lower c" by (auto simp: isspace_def has_lower_def Let_def)
  with h show "c = CHR '' ''" by (simp add: lower_char_def)
next
  assume "c = CHR '' ''"
  then show "lower_char c = CHR '' ''" by (simp add: lower_char_def has_lower_def code_def)
qed

lemma single_spaced_lower: "single_spaced (lower s) = single_spaced s"
  by (induction s rule: single_spaced.induct)
     (simp_all add: lower_def isspace_lower_char lower_char_eq_space)

text \<open>
  Claim C3, amended. \<open>slugify\<close> lower-cases, trims leading and trailing whitespace,
  replaces every space character by one joining character (one for one: a run of spaces
  gives as many joining characters), strips every other character that is neither
  alphanumeric nor the joining character, and truncates to at most 40 characters. Its
  result holds lower-case alphanumerics and joining characters only. On a name whose
  interior whitespace is single spaces only it is the specification's normalizer.
\<close>

theorem slugify_amended:
  "slugify name =
     take 40 (filter slug_char (replace (CHR '' '') (CHR ''_'') (strip (lower name)))) \<and>
   length (slugify name) \<le> 40 \<and>
   (\<forall>c\<in>set (slugify name). (isalnum c \<or> c = CHR ''_'') \<and> lower_char c = c) \<and>
   (single_spaced (strip name) \<longrightarrow> slugify name = normalize_spec name)"
proof -
  have 1: "slugify name =
     take 40 (filter slug_char (replace (CHR '' '') (CHR ''_'') (strip (lower name))))"
    by (simp add: slugify_def strip_lower)
  have 2: "length (slugify name) \<le> 40"
    by (rule length_slugify)
  have 3: "\<forall>c\<in>set (slugify name). (isalnum c \<or> c = CHR ''_'') \<and> lower_char c = c"
    using slugify_chars [of _ name] by (auto simp: slug_char_def)
  have 4: "slugify name = normalize_spec name" if "single_spaced (strip name)"
  proof -
    from that have "single_spaced (strip (lower name))"
      by (simp add: strip_lower single_spaced_lower)
    then show ?thesis
      by (simp add: 1 normalize_spec_def join_whitespace_single_spaced)
  qed
  from 1 2 3 4 show ?thesis by (intro conjI impI)
qed

theorem slugify_amended_witness:
  "single_spaced (strip ''  Bench Press! '') \<and>
   slugify ''  Bench Press! '' = ''bench_press'' \<and>
   normalize_spec ''  Bench Press! '' = ''bench_press''"
proof -
  have s: "single_spaced (strip ''  Bench Press! '')"
    by code_simp
  have v: "slugify ''  Bench Press! '' = ''bench_press''"
    by code_simp
  have "single_spaced (strip ''  Bench Press! '') \<longrightarrow>
      slugify ''  Bench Press! '' = normalize_spec ''  Bench Press! ''"
    using slugify_amended [of "''  Bench Press! ''"] by (elim conjE)
  with s have "slugify ''  Bench Press! '' = normalize_spec ''  Bench Press! ''"
    by (rule rev_mp)
  with s v show ?thesis by (simp only: simp_thms)
qed

section \<open>Properties of the set log store\<close>

lemma log_of_append_set_record:
  "log_of (fst (append_set_record str_float now fs record)) =
     log_of fs @ [log_row str_float (snd (append_set_record str_float now fs record))]"
  by (cases "WORKOUTS_CSV fs")
     (simp_all add: append_set_record_def ensure_files_exist_def Let_def log_of_def append_row_def)

text \<open>
  Claim C7. \<open>append_set_record\<close> stamps a record whose \<open>created_at\<close> is unset (empty)
  with the timestamp read at the call, and leaves a \<open>created_at\<close> that is set as it is;
  the row it appends to the log carries that value.
\<close>

theorem append_set_record_created_at:
  "created_at (snd (append_set_record str_float now fs record)) =
     (if created_at record = [] then now else created_at record) \<and>
   row_created_at (last (log_of (fst (append_set_record str_float now fs record)))) =
     (if created_at record = [] then now else created_at record)"
proof -
  have "created_at (snd (append_set_record str_float now fs record)) =
     (if created_at record = [] then now else created_at record)"
    by (simp add: append_set_record_def Let_def)
  moreover have
    "row_created_at (last (log_of (fst (append_set_record str_float now fs record)))) =
     created_at (snd (append_set_record str_float now fs record))"
    by (simp add: log_of_append_set_record log_row_def)
  ultimately show ?thesis by simp
qed

text \<open>
  Claim C9. \<open>append_set_record\<close> writes to its argument: after the call the argument's
  \<open>created_at\<close> is not empty, and the argument differs from what it was in that field
  at most. The timestamp \<open>isoformat()\<close> returns is never empty.
\<close>

theorem append_set_record_frame:
  assumes "now \<noteq> []"
  shows "created_at (snd (append_set_record str_float now fs record)) \<noteq> [] \<and>
         snd (append_set_record str_float now fs record) =
           record\<lparr>created_at := created_at (snd (append_set_record str_float now fs record))\<rparr>"
  using assms by (simp add: append_set_record_def Let_def)

theorem append_set_record_frame_witness:
  "''2025-01-01T12:00:00'' \<noteq> [] \<and>
   created_at (snd (append_set_record (\<lambda>x. x) ''2025-01-01T12:00:00'' no_files bench_set)) =
     ''2025-01-01T12:00:00'' \<and>
   snd (append_set_record (\<lambda>x. x) ''2025-01-01T12:00:00'' no_files bench_set) =
     bench_set\<lparr>created_at := ''2025-01-01T12:00:00''\<rparr>"
proof -
  have n: "''2025-01-01T12:00:00'' \<noteq> []" by simp
  have c: "created_at (snd (append_set_record (\<lambda>x. x) ''2025-01-01T12:00:00'' no_files bench_set)) =
     ''2025-01-01T12:00:00''"
    by (simp add: append_set_record_def Let_def bench_set_def)
  from append_set_record_frame [OF n, of "\<lambda>x. x" no_files bench_set] c n
  show ?thesis by (simp only: simp_thms)
qed

section \<open>Properties of the summary aggregator\<close>

lemma set_first_seen: "set (first_seen xs) = set xs"
  by (induction xs) auto

lemma distinct_first_seen: "distinct (first_seen xs)"
  by (induction xs) (auto simp: set_first_seen)

lemma first_seen_snoc:
  "first_seen (xs @ [x]) = (if x \<in> set xs then first_seen xs else first_seen xs @ [x])"
  by (induction xs) auto

lemma map_entry_tabulate:
  "distinct ws \<Longrightarrow>
   AList.map_entry k f (map (\<lambda>w. (w, g w)) ws) =
     map (\<lambda>w. (w, if w = k then f (g w) else g w)) ws"
proof (induction ws)
  case Nil
  show ?case by simp
next
  case (Cons w ws)
  show ?case
  proof (cases "w = k")
    case True
    with Cons.prems have "k \<notin> set ws" by simp
    then have "map (\<lambda>w. (w, if w = k then f (g w) else g w)) ws = map (\<lambda>w. (w, g w)) ws"
      by (intro map_cong) auto
    with True show ?thesis by simp
  next
    case False
    with Cons show ?thesis by simp
  qed
qed

lemma sets_of_snoc:
  "sets_of w (log @ [r]) = (if row_workout_id r = w then sets_of w log @ [r] else sets_of w log)"
  by (simp add: sets_of_def)

lemma sets_of_empty_iff: "sets_of w log = [] \<longleftrightarrow> w \<notin> row_workout_id ` set log"
  by (auto simp: sets_of_def filter_empty_conv)

lemma summary_of_snoc_other:
  "row_workout_id r \<noteq> w \<Longrightarrow> summary_of (log @ [r]) w = summary_of log w"
  by (simp add: summary_of_def sets_of_snoc)

lemma summary_of_snoc_known:
  assumes "row_workout_id r \<in> row_workout_id ` set log"
  shows "summary_of (log @ [r]) (row_workout_id r) =
    (summary_of log (row_workout_id r))
      \<lparr>sum_movements := sum_movements (summary_of log (row_workout_id r)) @ [descriptor r]\<rparr>"
proof -
  from assms have "sets_of (row_workout_id r) log \<noteq> []"
    by (simp add: sets_of_empty_iff)
  then obtain a as where "sets_of (row_workout_id r) log = a # as"
    by (cases "sets_of (row_workout_id r) log") auto
  then show ?thesis
    by (simp add: summary_of_def sets_of_snoc)
qed

lemma summary_of_snoc_new:
  assumes "row_workout_id r \<notin> row_workout_id ` set log"
  shows "summary_of (log @ [r]) (row_workout_id r) =
    \<lparr>sum_workout_id = row_workout_id r, sum_date = row_date r, sum_movements = [descriptor r]\<rparr>"
proof -
  from assms have "sets_of (row_workout_id r) log = []"
    by (simp add: sets_of_empty_iff)
  then show ?thesis
    by (simp add: summary_of_def sets_of_snoc)
qed

lemma keys_tabulate: "keys (tabulate log ws) = set ws"
  by (auto simp: keys_def tabulate_def image_iff)

lemma tabulate_snoc_other:
  "row_workout_id r \<notin> set ws \<Longrightarrow> tabulate (log @ [r]) ws = tabulate log ws"
proof -
  assume notin: "row_workout_id r \<notin> set ws"
  have "summary_of (log @ [r]) w = summary_of log w" if "w \<in> set ws" for w
  proof -
    from that notin have "row_workout_id r \<noteq> w" by blast
    then show ?thesis by (rule summary_of_snoc_other)
  qed
  then show ?thesis
    unfolding tabulate_def by (intro map_cong) simp_all
qed

lemma map_entry_append:
  "k \<notin> fst ` set xs \<Longrightarrow> AList.map_entry k f (xs @ ys) = xs @ AList.map_entry k f ys"
  by (induction xs) auto

lemma summary_loop:
  "foldl summary_step [] log = tabulate log (first_seen (map row_workout_id log))"
proof (induction log rule: rev_induct)
  case Nil
  show ?case by (simp add: tabulate_def)
next
  case (snoc r log)
  let ?ws = "first_seen (map row_workout_id log)"
  let ?k = "row_workout_id r"
  let ?f = "\<lambda>s. s\<lparr>sum_movements := sum_movements s @ [descriptor r]\<rparr>"
  have set_ws: "set ?ws = row_workout_id ` set log"
    by (simp add: set_first_seen)
  have dist: "distinct ?ws"
    by (rule distinct_first_seen)
  show ?case
  proof (cases "?k \<in> row_workout_id ` set log")
    case True
    then have in_keys: "?k \<in> keys (tabulate log ?ws)"
      by (simp add: keys_tabulate set_ws)
    have "foldl summary_step [] (log @ [r]) = AList.map_entry ?k ?f (tabulate log ?ws)"
      using in_keys by (simp add: snoc.IH summary_step_def setdefault_def Let_def)
    also have "\<dots> = map (\<lambda>w. (w, if w = ?k then ?f (summary_of log w) else summary_of log w)) ?ws"
      unfolding tabulate_def using dist by (rule map_entry_tabulate)
    also have "\<dots> = map (\<lambda>w. (w, summary_of (log @ [r]) w)) ?ws"
    proof (intro map_cong refl)
      fix w
      show "(w, if w = ?k then ?f (summary_of log w) else summary_of log w) =
        (w, summary_of (log @ [r]) w)"
        using True by (cases "w = ?k") (simp_all add: summary_of_snoc_known summary_of_snoc_other)
    qed
    also have "\<dots> = tabulate (log @ [r]) (first_seen (map row_workout_id (log @ [r])))"
      using True by (simp add: tabulate_def first_seen_snoc)
    finally show ?thesis .
  next
    case False
    then have not_keys: "?k \<notin> keys (tabulate log ?ws)"
      by (simp add: keys_tabulate set_ws)
    from False have notin: "?k \<notin> set ?ws"
      by (simp add: set_ws)
    let ?init = "\<lparr>sum_workout_id = ?k, sum_date = row_date r, sum_movements = []\<rparr>"
    have "foldl summary_step [] (log @ [r]) =
        AList.map_entry ?k ?f (tabulate log ?ws @ [(?k, ?init)])"
      using not_keys by (simp add: snoc.IH summary_step_def setdefault_def Let_def)
    also have "\<dots> = tabulate log ?ws @ [(?k, ?f ?init)]"
      using not_keys by (simp add: map_entry_append keys_def)
    also have "\<dots> = tabulate (log @ [r]) ?ws @ [(?k, summary_of (log @ [r]) ?k)]"
      using False notin by (simp add: tabulate_snoc_other summary_of_snoc_new)
    also have "\<dots> = tabulate (log @ [r]) (first_seen (map row_workout_id (log @ [r])))"
      using False by (simp add: tabulate_def first_seen_snoc)
    finally show ?thesis .
  qed
qed

lemma sum_workout_id_summary_of: "sum_workout_id (summary_of log w) = w"
  by (simp add: summary_of_def)

lemma summary_rows_eq:
  "summary_rows log = map (summary_of log) (first_seen (map row_workout_id log))"
  by (simp add: summary_rows_def values_of_def summary_loop tabulate_def comp_def)

lemma summary_rows_ids:
  "map sum_workout_id (summary_rows log) = first_seen (map row_workout_id log)"
  by (simp add: summary_rows_eq comp_def sum_workout_id_summary_of)

text \<open>
  Claim C2. \<open>export_summary\<close> groups the rows of the log by \<open>workout_id\<close>: its rows
  are one summary per distinct workout id, in first-seen order of the ids; each takes its
  date from the first row of its workout and lists the descriptors
  \<open>name:set_numberxreps@load\<close> of the workout's rows in log order.
\<close>

theorem summary_rows_grouped:
  "summary_rows log = map (summary_of log) (first_seen (map row_workout_id log)) \<and>
   distinct (map sum_workout_id (summary_rows log)) \<and>
   set (map sum_workout_id (summary_rows log)) = row_workout_id ` set log"
  by (simp add: summary_rows_ids distinct_first_seen set_first_seen) (rule summary_rows_eq)

section \<open>Appending sets, then summarizing\<close>









section \<open>Properties of the movement catalog store\<close>

lemma keys_setitem: "keys (setitem k v d) = insert k (keys d)"
  by (simp add: keys_def setitem_def dom_update)


lemma setitem_new: "k \<notin> keys d \<Longrightarrow> setitem k v d = d @ [(k, v)]"
  unfolding keys_def setitem_def by (induction d) auto

lemma load_movements_rows: "load_movements fs = foldl load_row [] (catalog_rows fs)"
  by (cases "MOVEMENTS_CSV fs") (simp_all add: load_movements_def catalog_rows_def)

lemma catalog_rows_ensure: "catalog_rows (ensure_files_exist fs) = catalog_rows fs"
  by (cases "MOVEMENTS_CSV fs") (simp_all add: ensure_files_exist_def catalog_rows_def Let_def)

lemma load_movements_ensure: "load_movements (ensure_files_exist fs) = load_movements fs"
  by (simp add: load_movements_rows catalog_rows_ensure)

lemma MOVEMENTS_CSV_ensure:
  "MOVEMENTS_CSV (ensure_files_exist fs) = Some (catalog_rows fs)"
  by (cases "MOVEMENTS_CSV fs") (simp_all add: ensure_files_exist_def catalog_rows_def Let_def)


lemma append_movement_new:
  assumes "m_id m \<notin> keys (load_movements fs)"
  shows "append_movement fs m =
    Inr ((ensure_files_exist fs)\<lparr>MOVEMENTS_CSV := Some (catalog_rows fs @ [m])\<rparr>)"
  using assms
  by (simp add: append_movement_def Let_def load_movements_ensure MOVEMENTS_CSV_ensure
      append_row_def)

lemma catalog_rows_update:
  "catalog_rows (fs\<lparr>MOVEMENTS_CSV := Some rows\<rparr>) = rows"
  by (simp add: catalog_rows_def)

lemma load_movements_snoc:
  "catalog_rows fs' = catalog_rows fs @ [m] \<Longrightarrow>
   load_movements fs' = setitem (row_mid m) (m\<lparr>m_id := row_mid m\<rparr>) (load_movements fs)"
  by (simp add: load_movements_rows load_row_def Let_def)






section \<open>Properties of the importer\<close>

lemma resolve_fresh: "resolve name existing i mid \<notin> keys existing"
  by (induction name existing i mid rule: resolve.induct) (subst resolve.simps, simp)

lemma resolve_first_free_from:
  assumes "1 \<le> i" and "mid = candidate (slugify name) i"
    and "\<forall>j. 1 \<le> j \<and> j < i \<longrightarrow> candidate (slugify name) j \<in> keys existing"
  shows "first_free (slugify name) (keys existing) (resolve name existing i mid)"
  using assms
proof (induction name existing i mid rule: resolve.induct)
  case (1 name existing i mid)
  show ?case
  proof (cases "mid \<in> keys existing")
    case False
    then have "resolve name existing i mid = mid"
      by (subst resolve.simps) simp
    with False "1.prems" show ?thesis
      unfolding first_free_def by auto
  next
    case True
    have next_cand: "suffixed (slugify name) (i + 1) = candidate (slugify name) (i + 1)"
      using "1.prems"(1) by (simp add: candidate_def)
    have below: "\<forall>j. 1 \<le> j \<and> j < i + 1 \<longrightarrow> candidate (slugify name) j \<in> keys existing"
    proof (intro allI impI)
      fix j assume j: "1 \<le> j \<and> j < i + 1"
      show "candidate (slugify name) j \<in> keys existing"
      proof (cases "j = i")
        case True
        with \<open>mid \<in> keys existing\<close> "1.prems"(2) show ?thesis by simp
      next
        case False
        with j have "1 \<le> j \<and> j < i" by arith
        with "1.prems"(3) show ?thesis by blast
      qed
    qed
    have "first_free (slugify name) (keys existing)
        (resolve name existing (i + 1) (suffixed (slugify name) (i + 1)))"
      using True next_cand below by (intro "1.IH") simp_all
    moreover have "resolve name existing i mid =
        resolve name existing (i + 1) (suffixed (slugify name) (i + 1))"
      using True by (subst resolve.simps) simp
    ultimately show ?thesis by simp
  qed
qed

lemma resolve_first_free:
  "first_free (slugify name) (keys existing) (resolve name existing 1 (slugify name))"
  by (rule resolve_first_free_from) (simp_all add: candidate_def)

lemma suffixed_not_Nil: "suffixed base k \<noteq> []"
  by (simp add: suffixed_def)

lemma first_free_row_mid:
  assumes "first_free (slugify name) K mid"
  shows "row_mid (new_movement mid name row) = mid"
proof (cases "mid = []")
  case False
  then show ?thesis by (simp add: row_mid_def new_movement_def)
next
  case True
  from assms obtain k where "mid = candidate (slugify name) k"
    unfolding first_free_def by blast
  with True have "slugify name = []"
    by (auto simp: candidate_def suffixed_not_Nil split: if_splits)
  with True show ?thesis by (simp add: row_mid_def new_movement_def)
qed

lemma name_known_iff:
  "name_known existing name \<longleftrightarrow> lower name \<in> set (map lower (map m_name (values_of existing)))"
proof -
  have "(\<exists>m\<in>set (values_of existing). lower (m_name m) = lower name) \<longleftrightarrow>
      lower name \<in> (\<lambda>m. lower (m_name m)) ` set (values_of existing)"
    by (simp add: image_iff eq_commute)
  then show ?thesis
    by (simp add: name_known_def list_ex_iff comp_def)
qed

lemma ids_first_free_distinct:
  "ids_first_free K news \<Longrightarrow> distinct (map m_id news) \<and> set (map m_id news) \<inter> K = {}"
proof (induction news arbitrary: K)
  case Nil
  show ?case by simp
next
  case (Cons m news)
  from Cons.prems have "m_id m \<notin> K" and "ids_first_free (insert (m_id m) K) news"
    by (auto simp: first_free_def)
  moreover from this(2) have
    "distinct (map m_id news) \<and> set (map m_id news) \<inter> insert (m_id m) K = {}"
    by (rule Cons.IH)
  ultimately show ?case by auto
qed

lemma import_rows_skip:
  "row_name row = [] \<or> name_known existing (row_name row) \<Longrightarrow>
   import_rows (row # reader) count existing fs = import_rows reader count existing fs"
  by (auto simp: Let_def)

lemma import_rows_create:
  assumes "row_name row \<noteq> []" and "\<not> name_known existing (row_name row)"
    and "append_movement fs
      (new_movement (resolve (row_name row) existing 1 (slugify (row_name row))) (row_name row) row)
      = Inr fs1"
  shows "import_rows (row # reader) count existing fs =
    import_rows reader (count + 1)
      (setitem (resolve (row_name row) existing 1 (slugify (row_name row)))
         (new_movement (resolve (row_name row) existing 1 (slugify (row_name row))) (row_name row) row)
         existing) fs1"
  using assms by (simp add: Let_def)

lemma import_rows_run:
  assumes "keys existing = keys (load_movements fs)"
  shows "\<exists>news existing' fs'.
     import_rows reader count existing fs = Inr (count + length news, existing', fs') \<and>
     catalog_rows fs' = catalog_rows fs @ news \<and>
     map m_name news = created_names (map m_name (values_of existing)) reader \<and>
     ids_first_free (keys existing) news"
  using assms
proof (induction reader arbitrary: count existing fs)
  case Nil
  have "import_rows [] count existing fs = Inr (count + length ([] :: Movement list), existing, fs) \<and>
     catalog_rows fs = catalog_rows fs @ [] \<and>
     map m_name [] = created_names (map m_name (values_of existing)) [] \<and>
     ids_first_free (keys existing) []"
    by simp
  then show ?case by blast
next
  case (Cons row reader)
  let ?name = "row_name row"
  show ?case
  proof (cases "?name = [] \<or> name_known existing ?name")
    case True
    then have 1: "import_rows (row # reader) count existing fs = import_rows reader count existing fs"
      by (rule import_rows_skip)
    from True have 2: "created_names (map m_name (values_of existing)) (row # reader) =
        created_names (map m_name (values_of existing)) reader"
      by (auto simp: name_known_iff)
    from Cons.IH [OF Cons.prems, of count] show ?thesis
      unfolding 1 2 .
  next
    case False
    then have name: "?name \<noteq> []" and fresh_name: "\<not> name_known existing ?name"
      by simp_all
    define mid where "mid = resolve ?name existing 1 (slugify ?name)"
    define m where "m = new_movement mid ?name row"
    define fs1 where "fs1 = (ensure_files_exist fs)\<lparr>MOVEMENTS_CSV := Some (catalog_rows fs @ [m])\<rparr>"
    define existing1 where "existing1 = setitem mid m existing"
    have ff: "first_free (slugify ?name) (keys existing) mid"
      unfolding mid_def by (rule resolve_first_free)
    have mid_new: "mid \<notin> keys existing"
      unfolding mid_def by (rule resolve_fresh)
    have m_id: "m_id m = mid" and m_name: "m_name m = ?name"
      by (simp_all add: m_def new_movement_def)
    have app: "append_movement fs m = Inr fs1"
      unfolding fs1_def
    proof (rule append_movement_new)
      from mid_new Cons.prems show "m_id m \<notin> keys (load_movements fs)"
        by (simp add: m_id)
    qed
    have rows1: "catalog_rows fs1 = catalog_rows fs @ [m]"
      unfolding fs1_def by (rule catalog_rows_update)
    have "row_mid m = mid"
      unfolding m_def using ff by (rule first_free_row_mid)
    then have "keys (load_movements fs1) = insert mid (keys (load_movements fs))"
      using load_movements_snoc [OF rows1] by (simp add: keys_setitem)
    then have inv1: "keys existing1 = keys (load_movements fs1)"
      using Cons.prems by (simp add: existing1_def keys_setitem)
    have values1: "values_of existing1 = values_of existing @ [m]"
      using mid_new by (simp add: existing1_def setitem_new values_of_def)
    have keys1: "keys existing1 = insert mid (keys existing)"
      unfolding existing1_def by (rule keys_setitem)
    have step: "import_rows (row # reader) count existing fs =
        import_rows reader (count + 1) existing1 fs1"
      unfolding existing1_def m_def mid_def
      using name fresh_name app [unfolded m_def mid_def] by (rule import_rows_create)
    from Cons.IH [OF inv1, of "count + 1"] obtain news existing' fs' where
      run: "import_rows reader (count + 1) existing1 fs1 =
          Inr (count + 1 + length news, existing', fs')"
      and rows: "catalog_rows fs' = catalog_rows fs1 @ news"
      and names: "map m_name news = created_names (map m_name (values_of existing1)) reader"
      and free: "ids_first_free (keys existing1) news"
      by blast
    have a: "import_rows (row # reader) count existing fs =
        Inr (count + length (m # news), existing', fs')"
      using step run by simp
    have b: "catalog_rows fs' = catalog_rows fs @ (m # news)"
      using rows rows1 by simp
    have c: "map m_name (m # news) = created_names (map m_name (values_of existing)) (row # reader)"
      using name fresh_name names by (simp add: name_known_iff values1 m_name)
    have d: "ids_first_free (keys existing) (m # news)"
      using ff free by (simp add: m_id m_name keys1)
    from a b c d show ?thesis by blast
  qed
qed

lemma splitlines_from_Nil: "splitlines_from line s = [] \<longleftrightarrow> line = [] \<and> s = []"
  by (induction line s rule: splitlines_from.induct) auto

lemma splitlines_Nil: "splitlines text = [] \<longleftrightarrow> text = []"
  by (simp add: splitlines_def splitlines_from_Nil)

lemma import_no_path: "import_movements_file csv_reader fs None = Inl FileNotFoundError"
  by (simp add: import_movements_file_def)

lemma import_no_lines: "import_movements_file csv_reader fs (Some []) = Inl IndexError"
  by (simp add: import_movements_file_def splitlines_def)

lemma import_lines:
  assumes "splitlines text \<noteq> []"
  shows "\<exists>news fs'.
     import_movements_file csv_reader fs (Some text) = Inr (length news, fs') \<and>
     catalog_rows fs' = catalog_rows fs @ news \<and>
     map m_name news =
       created_names (map m_name (values_of (load_movements fs))) (source_rows csv_reader text) \<and>
     ids_first_free (keys (load_movements fs)) news"
proof -
  from assms obtain first_line rest where lines: "splitlines text = first_line # rest"
    by (cases "splitlines text") auto
  have "keys (load_movements fs) = keys (load_movements fs)" ..
  from import_rows_run [OF this, of "source_rows csv_reader text" 0]
  obtain news existing' fs' where
    run: "import_rows (source_rows csv_reader text) 0 (load_movements fs) fs =
        Inr (0 + length news, existing', fs')"
    and rest: "catalog_rows fs' = catalog_rows fs @ news"
      "map m_name news =
         created_names (map m_name (values_of (load_movements fs))) (source_rows csv_reader text)"
      "ids_first_free (keys (load_movements fs)) news"
    by blast
  have "import_movements_file csv_reader fs (Some text) =
      (case import_rows (source_rows csv_reader text) 0 (load_movements fs) fs of
         Inl e \<Rightarrow> Inl e
       | Inr (count, existing, fs) \<Rightarrow> Inr (count, fs))"
    by (simp add: import_movements_file_def source_rows_def lines Let_def)
  with run have "import_movements_file csv_reader fs (Some text) = Inr (length news, fs')"
    by simp
  with rest show ?thesis by blast
qed

text \<open>
  Claim C10. For a source that exists and is empty, \<open>import_movements_file\<close> raises the
  \<open>IndexError\<close> of \<open>text.splitlines()[0]\<close>; it neither returns a count nor raises
  \<open>FileNotFoundError\<close>, which it raises for a missing path only. The empty text is
  the only one without lines.
\<close>

theorem import_empty_source:
  "import_movements_file csv_reader fs (Some []) = Inl IndexError \<and>
   (import_movements_file csv_reader fs path = Inl FileNotFoundError \<longleftrightarrow> path = None) \<and>
   (import_movements_file csv_reader fs path = Inl IndexError \<longleftrightarrow> path = Some [])"
proof -
  have "import_movements_file csv_reader fs path =
      (case path of
         None \<Rightarrow> Inl FileNotFoundError
       | Some text \<Rightarrow> if text = [] then Inl IndexError
                      else import_movements_file csv_reader fs (Some text))"
    by (cases path) (simp_all add: import_no_path import_no_lines)
  moreover have "\<exists>n fs'. import_movements_file csv_reader fs (Some s) = Inr (n, fs')"
    if "s \<noteq> []" for s
  proof -
    from that have "splitlines s \<noteq> []"
      by (simp add: splitlines_Nil)
    from import_lines [OF this, of csv_reader fs] show ?thesis by blast
  qed
  ultimately have
    "(import_movements_file csv_reader fs path = Inl FileNotFoundError) = (path = None)"
    "(import_movements_file csv_reader fs path = Inl IndexError) = (path = Some [])"
    by (cases path; cases "the path = []"; fastforce)+
  with import_no_lines show ?thesis by blast
qed


text \<open>
  Claim C4. The movements that one run of \<open>import_movements_file\<close> creates get, each at
  its turn, the first of the ids slug, slug\<open>_2\<close>, slug\<open>_3\<close>, ... that is neither in
  the catalog nor given earlier in the run; so the first of two names with one slug gets
  the slug and the second the slug with \<open>_2\<close>, and the ids created are different from
  each other and from the ids of the catalog.
\<close>

theorem import_ids_unique:
  assumes "import_movements_file csv_reader fs path = Inr (n, fs')"
  shows "\<exists>news.
     catalog_rows fs' = catalog_rows fs @ news \<and> length news = n \<and>
     ids_first_free (keys (load_movements fs)) news \<and>
     distinct (map m_id news) \<and>
     set (map m_id news) \<inter> keys (load_movements fs) = {}"
proof -
  from assms obtain s where path: "path = Some s"
    by (cases path) (simp_all add: import_no_path)
  with assms have "s \<noteq> []"
    by (auto simp: import_no_lines)
  then have "splitlines s \<noteq> []"
    by (simp add: splitlines_Nil)
  from import_lines [OF this, of csv_reader fs] obtain news fs'' where
    run: "import_movements_file csv_reader fs (Some s) = Inr (length news, fs'')"
    and rows: "catalog_rows fs'' = catalog_rows fs @ news"
    and free: "ids_first_free (keys (load_movements fs)) news"
    by blast
  from run assms path have "n = length news" and "fs' = fs''"
    by simp_all
  moreover from free
  have "distinct (map m_id news) \<and> set (map m_id news) \<inter> keys (load_movements fs) = {}"
    by (rule ids_first_free_distinct)
  ultimately show ?thesis
    using rows free by blast
qed


theorem import_ids_unique_witness:
  "import_movements_file plain_reader no_files (Some two_presses) =
     Inr (2, \<lparr>MOVEMENTS_CSV = Some [press, press_2], WORKOUTS_CSV = Some []\<rparr>) \<and>
   slugify (m_name press) = slugify (m_name press_2) \<and>
   map m_id [press, press_2] = [''overhead_press'', ''overhead_press_2''] \<and>
   ids_first_free (keys (load_movements no_files)) [press, press_2] \<and>
   distinct (map m_id [press, press_2])"
proof -
  let ?fs = "\<lparr>MOVEMENTS_CSV = Some [press, press_2], WORKOUTS_CSV = Some []\<rparr>"
  have run: "import_movements_file plain_reader no_files (Some two_presses) = Inr (2, ?fs)"
    by code_simp
  have slug: "slugify (m_name press) = slugify (m_name press_2)"
    by code_simp
  have ids: "map m_id [press, press_2] = [''overhead_press'', ''overhead_press_2'']"
    by (simp add: press_def press_2_def)
  from import_ids_unique [OF run] obtain news where
    "catalog_rows ?fs = catalog_rows no_files @ news"
    and free: "ids_first_free (keys (load_movements no_files)) news"
    and dist: "distinct (map m_id news)"
    by blast
  then have "news = [press, press_2]"
    by (simp add: catalog_rows_def no_files_def)
  with free dist have "ids_first_free (keys (load_movements no_files)) [press, press_2]"
    and "distinct (map m_id [press, press_2])"
    by simp_all
  with run slug ids show ?thesis by (intro conjI)
qed

end
